theory Spec2Isabelle
  imports Main "HOL-Library.Word"
begin

unbundle bit_operations_syntax

section \<open>Python values and errors\<close>

text \<open>
  A Python \<open>bytes\<close> object is a list of 8-bit characters. A Python \<open>str\<close> is held as
  its UTF-8 encoding (well-formed text and well-formed UTF-8 correspond one to one, and
  concatenation of texts is concatenation of their encodings), so \<open>s.encode('utf-8')\<close>
  keeps the representation and \<open>b.decode('utf-8')\<close> checks it. A Python \<open>float\<close> is held
  as the text \<open>repr\<close> gives for it: the program never computes with a float, it only
  hands it to the client, which sends \<open>repr(value)\<close>.
\<close>

type_synonym bytes = string
type_synonym str = string

datatype error =
    ConnectionError
  | ResponseError
  | DataError
  | UnicodeDecodeError
  | ValueError
  | RequestException str

datatype pyval = PyNone | PyStr str | PyBytes bytes | PyInt int | PyFloat str

subsection \<open>\<open>str(n)\<close> and \<open>int(b)\<close>\<close>

definition digit_char :: "nat \<Rightarrow> char" where
  "digit_char d = char_of (48 + d)"

definition is_digit :: "char \<Rightarrow> bool" where
  "is_digit c = (48 \<le> (of_char c :: nat) \<and> (of_char c :: nat) \<le> 57)"

definition digit_val :: "char \<Rightarrow> nat" where
  "digit_val c = of_char c - 48"

fun str_nat :: "nat \<Rightarrow> string" where
  "str_nat n = (if n < 10 then [digit_char n] else str_nat (n div 10) @ [digit_char (n mod 10)])"

declare str_nat.simps [simp del]

text \<open>
  The decimal text of an integer, with a minus sign when negative: what \<open>repr(n)\<close> and
  \<open>str(n)\<close> give. It is defined for every integer; the interpreter's digit limit is
  modelled where the program itself converts, in \<open>int\<close> below.
\<close>

definition py_repr_int :: "int \<Rightarrow> string" where
  "py_repr_int i = (if i < 0 then CHR ''-'' # str_nat (nat (- i)) else str_nat (nat i))"

text \<open>The bytes Python's \<open>int()\<close> skips around a literal: tab, LF, VT, FF, CR and space.\<close>

definition is_space :: "char \<Rightarrow> bool" where
  "is_space c = ((of_char c :: nat) \<in> {9, 10, 11, 12, 13, 32})"

text \<open>
  The digits of a literal once its first digit is read: more digits, with single
  underscores allowed between two digits.
\<close>

fun int_digits :: "nat \<Rightarrow> bytes \<Rightarrow> nat option" where
  "int_digits acc [] = Some acc"
| "int_digits acc (c # cs) =
     (if is_digit c then int_digits (10 * acc + digit_val c) cs
      else if c = CHR ''_'' then
        (case cs of
           [] \<Rightarrow> None
         | d # ds \<Rightarrow> if is_digit d then int_digits (10 * acc + digit_val d) ds else None)
      else None)"

definition int_literal :: "bytes \<Rightarrow> nat option" where
  "int_literal s =
     (case s of
        [] \<Rightarrow> None
      | c # cs \<Rightarrow> if is_digit c then int_digits (digit_val c) cs else None)"

text \<open>
  The grammar of \<open>int(d)\<close> on bytes, base 10: surrounding whitespace is skipped, one sign
  is allowed, the rest must be a literal. \<open>None\<close> when the bytes are not of that form.
\<close>

definition read_int :: "bytes \<Rightarrow> int option" where
  "read_int d =
     (let s = dropWhile is_space d;
          neg = (case s of [] \<Rightarrow> False | c # _ \<Rightarrow> c = CHR ''-'');
          t = (case s of [] \<Rightarrow> [] | c # cs \<Rightarrow> if c = CHR ''-'' \<or> c = CHR ''+'' then cs else s);
          body = rev (dropWhile is_space (rev t))
      in case int_literal body of
           None \<Rightarrow> None
         | Some n \<Rightarrow> Some (if neg then - int n else int n))"

text \<open>
  The interpreter's limit on the conversion between text and integers
  (\<open>sys.get_int_max_str_digits()\<close>, 4300 unless the process changes it, and neither file
  does): \<open>int\<close> refuses a literal with more digits than that.
\<close>

definition int_max_str_digits :: nat where
  "int_max_str_digits = 4300"

definition digit_count :: "bytes \<Rightarrow> nat" where
  "digit_count d = length (filter is_digit d)"

text \<open>
  \<open>int(d)\<close> on bytes: \<open>ValueError\<close> when the bytes are not an integer literal, and when the
  literal has more than \<open>int_max_str_digits\<close> digits.
\<close>

definition py_int :: "bytes \<Rightarrow> error + int" where
  "py_int d =
     (case read_int d of
        None \<Rightarrow> Inl ValueError
      | Some n \<Rightarrow> if int_max_str_digits < digit_count d then Inl ValueError else Inr n)"

subsection \<open>UTF-8\<close>

definition cont :: "char \<Rightarrow> bool" where
  "cont c = (128 \<le> (of_char c :: nat) \<and> (of_char c :: nat) \<le> 191)"

definition in_range :: "nat \<Rightarrow> nat \<Rightarrow> char \<Rightarrow> bool" where
  "in_range lo hi c = (lo \<le> (of_char c :: nat) \<and> (of_char c :: nat) \<le> hi)"

text \<open>
  Well-formed UTF-8 as the strict codec accepts it: shortest forms only, no surrogates,
  nothing above U+10FFFF.
\<close>

fun valid_utf8 :: "bytes \<Rightarrow> bool" where
  "valid_utf8 [] = True"
| "valid_utf8 [a] = in_range 0 127 a"
| "valid_utf8 [a, b] =
     (if in_range 0 127 a then valid_utf8 [b]
      else in_range 194 223 a \<and> cont b)"
| "valid_utf8 [a, b, c] =
     (if in_range 0 127 a then valid_utf8 [b, c]
      else if in_range 194 223 a then cont b \<and> valid_utf8 [c]
      else if in_range 224 224 a then in_range 160 191 b \<and> cont c
      else if in_range 237 237 a then in_range 128 159 b \<and> cont c
      else in_range 225 239 a \<and> cont b \<and> cont c)"
| "valid_utf8 (a # b # c # d # rest) =
     (if in_range 0 127 a then valid_utf8 (b # c # d # rest)
      else if in_range 194 223 a then cont b \<and> valid_utf8 (c # d # rest)
      else if in_range 224 224 a then in_range 160 191 b \<and> cont c \<and> valid_utf8 (d # rest)
      else if in_range 237 237 a then in_range 128 159 b \<and> cont c \<and> valid_utf8 (d # rest)
      else if in_range 225 239 a then cont b \<and> cont c \<and> valid_utf8 (d # rest)
      else if in_range 240 240 a then in_range 144 191 b \<and> cont c \<and> cont d \<and> valid_utf8 rest
      else if in_range 244 244 a then in_range 128 143 b \<and> cont c \<and> cont d \<and> valid_utf8 rest
      else in_range 241 243 a \<and> cont b \<and> cont c \<and> cont d \<and> valid_utf8 rest)"

text \<open>\<open>d.decode('utf-8')\<close>, also \<open>d.decode()\<close>: the text, or \<open>UnicodeDecodeError\<close>.\<close>

definition bytes_decode :: "bytes \<Rightarrow> error + str" where
  "bytes_decode d = (if valid_utf8 d then Inr d else Inl UnicodeDecodeError)"

section \<open>The key-value store\<close>

text \<open>
  Modelled from the spec: the external key-value store and its client (the \<open>redis\<close>
  package), of which the repository holds only the calls. The spec names the commands
  used: \<open>SET key value [EX seconds]\<close>, \<open>GET key\<close> (absent or raw bytes), \<open>INCR key\<close>
  (atomic increment, the counter starting from 0 if absent) and \<open>FLUSHDB\<close>; a
  connectivity failure raises and is not caught locally.

  The database maps a key to its bytes and an optional expiry instant, under a clock in
  the spec's time units. \<open>link\<close> is what the connection will do for the commands to come:
  \<open>True\<close> when the command reaches the server, \<open>False\<close> when it raises
  \<open>ConnectionError\<close> and changes nothing; past the end of the list every command gets
  through. Counters are unbounded integers.
\<close>

record entry =
  val :: bytes
  expiry :: "nat option"

record redis =
  db :: "bytes \<rightharpoonup> entry"
  now :: nat
  link :: "bool list"

definition live :: "nat \<Rightarrow> entry \<Rightarrow> bool" where
  "live t e = (case expiry e of None \<Rightarrow> True | Some x \<Rightarrow> t < x)"

text \<open>What the server holds under a key at the present instant.\<close>

definition lookup :: "redis \<Rightarrow> bytes \<Rightarrow> bytes option" where
  "lookup r k =
     (case db r k of
        None \<Rightarrow> None
      | Some e \<Rightarrow> if live (now r) e then Some (val e) else None)"

text \<open>Time passing between two calls.\<close>

definition tick :: "nat \<Rightarrow> redis \<Rightarrow> redis" where
  "tick dt r = r\<lparr>now := now r + dt\<rparr>"

definition send :: "redis \<Rightarrow> bool \<times> redis" where
  "send r = (case link r of [] \<Rightarrow> (True, r) | up # rest \<Rightarrow> (up, r\<lparr>link := rest\<rparr>))"

text \<open>
  What the client puts on the wire for a value: bytes as they are, \<open>repr\<close> of an integer
  or a float, the UTF-8 encoding of a text; any other object raises \<open>DataError\<close> before
  anything is sent.
\<close>

fun encode :: "pyval \<Rightarrow> error + bytes" where
  "encode (PyBytes b) = Inr b"
| "encode (PyInt i) = Inr (py_repr_int i)"
| "encode (PyFloat f) = Inr f"
| "encode (PyStr s) = Inr s"
| "encode PyNone = Inl DataError"

text \<open>An integer as the server reads it for \<open>INCR\<close>: the canonical decimal form only.\<close>

definition string2ll :: "bytes \<Rightarrow> int option" where
  "string2ll v =
     (case read_int v of
        None \<Rightarrow> None
      | Some n \<Rightarrow> if py_repr_int n = v then Some n else None)"

definition redis_get :: "str \<Rightarrow> redis \<Rightarrow> (error + bytes option) \<times> redis" where
  "redis_get k r =
     (case send r of
        (False, r') \<Rightarrow> (Inl ConnectionError, r')
      | (True, r') \<Rightarrow> (Inr (lookup r' k), r'))"

definition redis_set :: "str \<Rightarrow> pyval \<Rightarrow> nat option \<Rightarrow> redis \<Rightarrow> (error + unit) \<times> redis" where
  "redis_set k v ex r =
     (case encode v of
        Inl e \<Rightarrow> (Inl e, r)
      | Inr b \<Rightarrow>
          (case send r of
             (False, r') \<Rightarrow> (Inl ConnectionError, r')
           | (True, r') \<Rightarrow>
               (Inr (),
                r'\<lparr>db := (db r')(k \<mapsto> \<lparr>val = b, expiry = map_option (\<lambda>n. now r' + n) ex\<rparr>)\<rparr>)))"

definition redis_incr :: "str \<Rightarrow> redis \<Rightarrow> (error + int) \<times> redis" where
  "redis_incr k r =
     (case send r of
        (False, r') \<Rightarrow> (Inl ConnectionError, r')
      | (True, r') \<Rightarrow>
          (case lookup r' k of
             None \<Rightarrow> (Inr 1, r'\<lparr>db := (db r')(k \<mapsto> \<lparr>val = py_repr_int 1, expiry = None\<rparr>)\<rparr>)
           | Some v \<Rightarrow>
               (case string2ll v of
                  None \<Rightarrow> (Inl ResponseError, r')
                | Some n \<Rightarrow>
                    (Inr (n + 1),
                     r'\<lparr>db := (db r')(k \<mapsto>
                        \<lparr>val = py_repr_int (n + 1),
                         expiry = (case db r' k of None \<Rightarrow> None | Some e \<Rightarrow> expiry e)\<rparr>)\<rparr>))))"

definition redis_flushdb :: "redis \<Rightarrow> (error + unit) \<times> redis" where
  "redis_flushdb r =
     (case send r of
        (False, r') \<Rightarrow> (Inl ConnectionError, r')
      | (True, r') \<Rightarrow> (Inr (), r'\<lparr>db := Map.empty\<rparr>))"

section \<open>exercise.py: the Cache class\<close>

subsection \<open>Fresh keys\<close>

text \<open>
  \<open>uuid.uuid4()\<close> draws 16 random bytes (the argument here, read as one big-endian
  number) and stamps the variant and the version on them; \<open>str\<close> of the UUID is its 32
  hexadecimal digits in groups of 8, 4, 4, 4 and 12.
\<close>

definition uuid4 :: "128 word \<Rightarrow> 128 word" where
  "uuid4 rnd =
     (((rnd AND NOT (push_bit 48 0xc000)) OR push_bit 48 0x8000)
        AND NOT (push_bit 64 0xf000)) OR push_bit 76 4"

definition hex_char :: "nat \<Rightarrow> char" where
  "hex_char d = (if d < 10 then char_of (48 + d) else char_of (87 + d))"

definition hex32 :: "128 word \<Rightarrow> string" where
  "hex32 u = map (\<lambda>i. hex_char (unat (drop_bit (4 * i) u AND 0xf))) (rev [0..<32])"

definition str_uuid :: "128 word \<Rightarrow> str" where
  "str_uuid u =
     (let h = hex32 u
      in take 8 h @ ''-'' @ take 4 (drop 8 h) @ ''-'' @ take 4 (drop 12 h) @ ''-''
           @ take 4 (drop 16 h) @ ''-'' @ drop 20 h)"

subsection \<open>The methods\<close>

text \<open>\<open>Cache.__init__\<close>: a client, and the database flushed.\<close>

definition Cache_init :: "redis \<Rightarrow> (error + unit) \<times> redis" where
  "Cache_init r = redis_flushdb r"

text \<open>
  The body of \<open>store\<close>, before decoration (the class defines it twice with the same body;
  the second definition, the decorated one, is the method the class ends up with).
\<close>

fun store_undecorated :: "pyval \<times> 128 word \<Rightarrow> redis \<Rightarrow> (error + str) \<times> redis" where
  "store_undecorated (data, rnd) r =
     (let key = str_uuid (uuid4 rnd)
      in case redis_set key data None r of
           (Inl e, r') \<Rightarrow> (Inl e, r')
         | (Inr _, r') \<Rightarrow> (Inr key, r'))"

text \<open>\<open>count_calls\<close>: the wrapper increments the key \<open>method.__qualname__\<close>, then calls the method.\<close>

definition count_calls ::
  "str \<Rightarrow> ('a \<Rightarrow> redis \<Rightarrow> (error + 'b) \<times> redis) \<Rightarrow> 'a \<Rightarrow> redis \<Rightarrow> (error + 'b) \<times> redis" where
  "count_calls qualname method args r =
     (let key = qualname
      in case redis_incr key r of
           (Inl e, r') \<Rightarrow> (Inl e, r')
         | (Inr _, r') \<Rightarrow> method args r')"

definition store :: "pyval \<Rightarrow> 128 word \<Rightarrow> redis \<Rightarrow> (error + str) \<times> redis" where
  "store data rnd r = count_calls ''Cache.store'' store_undecorated (data, rnd) r"

definition get ::
  "str \<Rightarrow> (bytes \<Rightarrow> error + pyval) option \<Rightarrow> redis \<Rightarrow> (error + pyval) \<times> redis" where
  "get key fn r =
     (case redis_get key r of
        (Inl e, r') \<Rightarrow> (Inl e, r')
      | (Inr None, r') \<Rightarrow> (Inr PyNone, r')
      | (Inr (Some v), r') \<Rightarrow>
          (case fn of
             Some f \<Rightarrow> (f v, r')
           | None \<Rightarrow> (Inr (PyBytes v), r')))"

definition get_str :: "str \<Rightarrow> redis \<Rightarrow> (error + pyval) \<times> redis" where
  "get_str key r =
     get key (Some (\<lambda>d. case bytes_decode d of Inl e \<Rightarrow> Inl e | Inr s \<Rightarrow> Inr (PyStr s))) r"

definition get_int :: "str \<Rightarrow> redis \<Rightarrow> (error + pyval) \<times> redis" where
  "get_int key r =
     get key (Some (\<lambda>d. case py_int d of Inl e \<Rightarrow> Inl e | Inr n \<Rightarrow> Inr (PyInt n))) r"

section \<open>web.py: the page cache\<close>

text \<open>
  Modelled from the spec: the HTTP client (the \<open>requests\<close> package), of which the
  repository holds only the calls: one blocking GET that surfaces transport errors, and
  \<open>raise_for_status\<close>, which the source calls to "raise an error for bad responses
  (4XX/5XX)". One request costs some time and either brings a response or raises a
  \<open>RequestException\<close> (a transport failure or a timeout; the string is what \<open>str(e)\<close>
  gives). The world of web.py is the module's store handle \<open>r\<close> (the field \<open>kv\<close>) and the
  list of the requests issued so far.
\<close>

record response =
  status_code :: nat
  reason :: str
  final_url :: str
  resp_text :: str

datatype reply = Responded response | Failed str

record network =
  took :: nat
  reply :: reply

record world =
  kv :: redis
  fetched :: "str list"

definition requests_get :: "str \<Rightarrow> network \<Rightarrow> world \<Rightarrow> (error + response) \<times> world" where
  "requests_get u net w =
     (let w' = w\<lparr>kv := tick (took net) (kv w), fetched := fetched w @ [u]\<rparr>
      in case reply net of
           Failed msg \<Rightarrow> (Inl (RequestException msg), w')
         | Responded resp \<Rightarrow> (Inr resp, w'))"

text \<open>\<open>Response.raise_for_status\<close>: an \<open>HTTPError\<close> (a \<open>RequestException\<close>) for 4xx and 5xx.\<close>

definition raise_for_status :: "response \<Rightarrow> error + unit" where
  "raise_for_status resp =
     (if 400 \<le> status_code resp \<and> status_code resp < 500 then
        Inl (RequestException
              (str_nat (status_code resp) @ '' Client Error: '' @ reason resp
                 @ '' for url: '' @ final_url resp))
      else if 500 \<le> status_code resp \<and> status_code resp < 600 then
        Inl (RequestException
              (str_nat (status_code resp) @ '' Server Error: '' @ reason resp
                 @ '' for url: '' @ final_url resp))
      else Inr ())"

text \<open>The body of \<open>get_page\<close>, before decoration.\<close>

definition get_page_undecorated :: "str \<Rightarrow> network \<Rightarrow> world \<Rightarrow> (error + str) \<times> world" where
  "get_page_undecorated u net w =
     (case requests_get u net w of
        (Inl e, w') \<Rightarrow> (Inl e, w')
      | (Inr resp, w') \<Rightarrow>
          (case raise_for_status resp of
             Inl e \<Rightarrow> (Inl e, w')
           | Inr _ \<Rightarrow> (Inr (resp_text resp), w')))"

text \<open>
  \<open>url_access_count\<close>: the wrapper. \<open>if cached_value:\<close> is Python's truth test, false for
  \<open>None\<close> and for empty bytes. Only \<open>RequestException\<close> is caught.
\<close>

definition url_access_count ::
  "(str \<Rightarrow> network \<Rightarrow> world \<Rightarrow> (error + str) \<times> world)
     \<Rightarrow> str \<Rightarrow> network \<Rightarrow> world \<Rightarrow> (error + str) \<times> world" where
  "url_access_count method u net w =
     (let key = ''cached:'' @ u
      in case redis_get key (kv w) of
           (Inl e, r1) \<Rightarrow> (Inl e, w\<lparr>kv := r1\<rparr>)
         | (Inr cached_value, r1) \<Rightarrow>
             (if cached_value \<noteq> None \<and> cached_value \<noteq> Some [] then
                (bytes_decode (the cached_value), w\<lparr>kv := r1\<rparr>)
              else
                (let key_count = ''count:'' @ u
                 in (case method u net (w\<lparr>kv := r1\<rparr>) of
                       (Inl e, w2) \<Rightarrow>
                         (case e of
                            RequestException msg \<Rightarrow> (Inr (''Error fetching page: '' @ msg), w2)
                          | _ \<Rightarrow> (Inl e, w2))
                     | (Inr html_content, w2) \<Rightarrow>
                         (case redis_incr key_count (kv w2) of
                            (Inl e, r3) \<Rightarrow> (Inl e, w2\<lparr>kv := r3\<rparr>)
                          | (Inr _, r3) \<Rightarrow>
                              (case redis_set key (PyStr html_content) (Some 10) r3 of
                                 (Inl e, r4) \<Rightarrow> (Inl e, w2\<lparr>kv := r4\<rparr>)
                               | (Inr _, r4) \<Rightarrow> (Inr html_content, w2\<lparr>kv := r4\<rparr>)))))))"

definition get_page :: "str \<Rightarrow> network \<Rightarrow> world \<Rightarrow> (error + str) \<times> world" where
  "get_page u net w = url_access_count get_page_undecorated u net w"

section \<open>Observations\<close>

text \<open>
  The number a key holds as a counter: 0 when the key is absent, as \<open>INCR\<close> reads it;
  nothing when the bytes are not an integer.
\<close>

definition counter :: "redis \<Rightarrow> str \<Rightarrow> int option" where
  "counter r k = (case lookup r k of None \<Rightarrow> Some 0 | Some v \<Rightarrow> string2ll v)"

text \<open>A key that no passing of time can remove: absent, or held without expiry.\<close>

definition persistent :: "redis \<Rightarrow> str \<Rightarrow> bool" where
  "persistent r k = (case db r k of None \<Rightarrow> True | Some e \<Rightarrow> expiry e = None)"

text \<open>A store that holds nothing, with the server reachable.\<close>

definition fresh :: redis where
  "fresh = \<lparr>db = Map.empty, now = 0, link = []\<rparr>"

text \<open>The same store, on a connection that carries one command and drops the next.\<close>

definition outage :: redis where
  "outage = \<lparr>db = Map.empty, now = 0, link = [True, False]\<rparr>"

text \<open>
  The world of web.py at the start, and three answers of the network for the URL
  \<open>http://example.test/a\<close>: a page with an empty body, a page saying hello, and a 404.
\<close>

definition blank :: world where
  "blank = \<lparr>kv = fresh, fetched = []\<rparr>"

definition empty_page :: network where
  "empty_page = \<lparr>took = 1, reply = Responded
      \<lparr>status_code = 200, reason = ''OK'', final_url = ''http://example.test/a'', resp_text = []\<rparr>\<rparr>"

definition hello_page :: network where
  "hello_page = \<lparr>took = 1, reply = Responded
      \<lparr>status_code = 200, reason = ''OK'', final_url = ''http://example.test/a'', resp_text = ''hello''\<rparr>\<rparr>"

definition not_found :: network where
  "not_found = \<lparr>took = 1, reply = Responded
      \<lparr>status_code = 404, reason = ''Not Found'', final_url = ''http://example.test/a'', resp_text = ''gone''\<rparr>\<rparr>"

text \<open>
  A sequence of calls to \<open>store\<close>, each after some time has passed, for any arguments and
  any random draws. A call that raises does not stop the caller from calling again. The
  results are kept in order, with the final state.
\<close>

fun store_calls :: "(nat \<times> pyval \<times> 128 word) list \<Rightarrow> redis \<Rightarrow> (error + str) list \<times> redis" where
  "store_calls [] r = ([], r)"
| "store_calls ((dt, data, rnd) # cs) r =
     (case store data rnd (tick dt r) of
        (res, r1) \<Rightarrow> (case store_calls cs r1 of (ress, r2) \<Rightarrow> (res # ress, r2)))"

section \<open>Properties of the collaborators\<close>

lemma is_digit_digit_char: "d < 10 \<Longrightarrow> is_digit (digit_char d)"
  by (simp add: is_digit_def digit_char_def)

lemma digit_val_digit_char: "d < 10 \<Longrightarrow> digit_val (digit_char d) = d"
  by (simp add: digit_val_def digit_char_def)

lemma int_digits_snoc:
  "d < 10 \<Longrightarrow> list_all is_digit xs \<Longrightarrow>
   int_digits acc (xs @ [digit_char d]) = map_option (\<lambda>v. 10 * v + d) (int_digits acc xs)"
  by (induction xs arbitrary: acc) (simp_all add: is_digit_digit_char digit_val_digit_char)

lemma str_nat_digits: "list_all is_digit (str_nat n)"
  by (induction n rule: str_nat.induct) (subst str_nat.simps, simp add: is_digit_digit_char)

lemma str_nat_nonempty: "str_nat n \<noteq> []"
  by (subst str_nat.simps) simp

lemma int_literal_str_nat: "int_literal (str_nat n) = Some n"
proof (induction n rule: str_nat.induct)
  case (1 n)
  show ?case
  proof (cases "n < 10")
    case True
    then show ?thesis
      by (subst str_nat.simps) (simp add: int_literal_def is_digit_digit_char digit_val_digit_char)
  next
    case False
    obtain c cs where cs: "str_nat (n div 10) = c # cs"
      using str_nat_nonempty [of "n div 10"] by (cases "str_nat (n div 10)") auto
    have dig: "is_digit c" "list_all is_digit cs"
      using str_nat_digits [of "n div 10"] cs by simp_all
    have "int_digits (digit_val c) cs = Some (n div 10)"
      using 1 False cs dig by (simp add: int_literal_def)
    then have "int_digits (digit_val c) (cs @ [digit_char (n mod 10)]) = Some (10 * (n div 10) + n mod 10)"
      using dig by (simp add: int_digits_snoc)
    then show ?thesis
      using False cs dig by (subst str_nat.simps) (simp add: int_literal_def)
  qed
qed

lemma not_space_digit: "is_digit c \<Longrightarrow> \<not> is_space c"
  by (auto simp: is_digit_def is_space_def)

lemma dropWhile_rev_keep: "s \<noteq> [] \<Longrightarrow> \<not> P (last s) \<Longrightarrow> dropWhile P (rev s) = rev s"
  by (cases s rule: rev_cases) simp_all

text \<open>A literal with nothing to skip at either end and no sign is read as it stands.\<close>

lemma read_int_plain:
  assumes "\<not> is_space c" "c \<noteq> CHR ''-''" "c \<noteq> CHR ''+''" "\<not> is_space (last (c # cs))"
  shows "read_int (c # cs) = map_option int (int_literal (c # cs))"
proof -
  have a: "dropWhile is_space (c # cs) = c # cs"
    using assms(1) by simp
  have b: "rev (dropWhile is_space (rev (c # cs))) = c # cs"
    using assms(4) dropWhile_rev_keep [of "c # cs" is_space] by (simp del: rev.simps)
  have "read_int (c # cs) =
          (case int_literal (c # cs) of None \<Rightarrow> None | Some n \<Rightarrow> Some (int n))"
    by (simp only: read_int_def Let_def a b list.case assms(2,3) simp_thms if_False)
  then show ?thesis
    by (simp split: option.splits)
qed

lemma read_int_str_nat: "read_int (str_nat n) = Some (int n)"
proof -
  obtain c cs where cs: "str_nat n = c # cs"
    using str_nat_nonempty [of n] by (cases "str_nat n") auto
  have c: "is_digit c" using str_nat_digits [of n] cs by simp
  have l: "is_digit (last (c # cs))"
    using str_nat_digits [of n] cs by (simp add: list_all_iff)
  have "read_int (c # cs) = map_option int (int_literal (c # cs))"
    using c l by (intro read_int_plain) (auto simp: is_digit_def is_space_def)
  then show ?thesis using int_literal_str_nat [of n] by (simp add: cs)
qed

lemma read_int_minus_str_nat: "read_int (CHR ''-'' # str_nat n) = Some (- int n)"
proof -
  have l: "is_digit (last (str_nat n))"
    using str_nat_digits [of n] str_nat_nonempty [of n] by (simp add: list_all_iff)
  have a: "dropWhile is_space (CHR ''-'' # str_nat n) = CHR ''-'' # str_nat n"
    by (simp add: is_space_def)
  have b: "rev (dropWhile is_space (rev (str_nat n))) = str_nat n"
    using l by (simp add: dropWhile_rev_keep str_nat_nonempty not_space_digit)
  show ?thesis
    unfolding read_int_def Let_def a by (simp add: b int_literal_str_nat del: rev.simps)
qed

lemma read_int_repr: "read_int (py_repr_int n) = Some n"
  by (simp add: py_repr_int_def read_int_str_nat read_int_minus_str_nat)

lemma string2ll_repr: "string2ll (py_repr_int n) = Some n"
  by (simp add: string2ll_def read_int_repr)

subsection \<open>The digit limit of \<open>int\<close>\<close>

lemma length_str_nat_le: "0 < k \<Longrightarrow> length (str_nat n) \<le> k \<longleftrightarrow> n < 10 ^ k"
proof (induction n arbitrary: k rule: str_nat.induct)
  case (1 n)
  show ?case
  proof (cases "n < 10")
    case True
    have "(10::nat) ^ 1 \<le> 10 ^ k"
      using 1(2) by (intro power_increasing) simp_all
    then have "n < 10 ^ k" using True by simp
    moreover have "length (str_nat n) = 1"
      using True by (subst str_nat.simps) simp
    ultimately show ?thesis using 1(2) by simp
  next
    case False
    have len: "length (str_nat n) = Suc (length (str_nat (n div 10)))"
      using False by (subst str_nat.simps) simp
    show ?thesis
    proof (cases k)
      case 0
      then show ?thesis using 1(2) by simp
    next
      case (Suc j)
      show ?thesis
      proof (cases "j = 0")
        case True
        have "0 < length (str_nat (n div 10))"
          using str_nat_nonempty [of "n div 10"] by simp
        then show ?thesis using False True Suc len by simp
      next
        case j: False
        have "length (str_nat (n div 10)) \<le> j \<longleftrightarrow> n div 10 < 10 ^ j"
          using 1(1) [OF False, of j] j by simp
        moreover have "n div 10 < 10 ^ j \<longleftrightarrow> n < 10 ^ j * 10"
          by (rule div_less_iff_less_mult) simp
        ultimately show ?thesis using Suc len by (simp add: mult.commute)
      qed
    qed
  qed
qed

lemma digit_count_str_nat: "digit_count (str_nat n) = length (str_nat n)"
  using str_nat_digits [of n] by (simp add: digit_count_def list_all_iff)

lemma digit_count_repr: "digit_count (py_repr_int n) = length (str_nat (nat \<bar>n\<bar>))"
proof -
  have "\<not> is_digit CHR ''-''" by (simp add: is_digit_def)
  then have "digit_count (CHR ''-'' # str_nat (nat (- n))) = length (str_nat (nat (- n)))"
    using digit_count_str_nat [of "nat (- n)"] by (simp add: digit_count_def)
  then show ?thesis
    by (simp add: py_repr_int_def digit_count_str_nat abs_if)
qed

lemma repr_within_limit:
  "digit_count (py_repr_int n) \<le> int_max_str_digits \<longleftrightarrow> \<bar>n\<bar> < 10 ^ int_max_str_digits"
proof -
  have "0 < int_max_str_digits" by (simp add: int_max_str_digits_def)
  then have "length (str_nat (nat \<bar>n\<bar>)) \<le> int_max_str_digits
               \<longleftrightarrow> nat \<bar>n\<bar> < 10 ^ int_max_str_digits"
    by (rule length_str_nat_le)
  also have "\<dots> \<longleftrightarrow> \<bar>n\<bar> < int (10 ^ int_max_str_digits)"
    by linarith
  finally show ?thesis
    by (simp add: digit_count_repr)
qed

text \<open>\<open>int\<close> reads the decimal text of an integer back, as long as the limit lets it.\<close>

lemma py_int_repr:
  "py_int (py_repr_int n) = (if \<bar>n\<bar> < 10 ^ int_max_str_digits then Inr n else Inl ValueError)"
  using repr_within_limit [of n]
  by (auto simp: py_int_def read_int_repr)

lemma length_hex32: "length (hex32 u) = 32"
  by (simp add: hex32_def)

lemma length_str_uuid: "length (str_uuid u) = 36"
  by (simp add: str_uuid_def Let_def length_hex32)

lemma str_uuid_not_counter: "str_uuid u \<noteq> ''Cache.store''"
proof
  assume "str_uuid u = ''Cache.store''"
  then have "length (str_uuid u) = length ''Cache.store''" by simp
  then show False by (simp add: length_str_uuid)
qed

subsection \<open>The commands while the server is reachable\<close>

lemma send_up: "link r = [] \<Longrightarrow> send r = (True, r)"
  by (simp add: send_def)

lemma redis_get_up: "link r = [] \<Longrightarrow> redis_get k r = (Inr (lookup r k), r)"
  by (simp add: redis_get_def send_up)

lemma redis_flushdb_up: "link r = [] \<Longrightarrow> redis_flushdb r = (Inr (), r\<lparr>db := Map.empty\<rparr>)"
  by (simp add: redis_flushdb_def send_up)

lemma redis_set_up:
  "link r = [] \<Longrightarrow> encode v = Inr b \<Longrightarrow>
   redis_set k v ex r =
     (Inr (), r\<lparr>db := (db r)(k \<mapsto> \<lparr>val = b, expiry = map_option (\<lambda>n. now r + n) ex\<rparr>)\<rparr>)"
  by (simp add: redis_set_def send_up)

lemma redis_set_DataError: "encode v = Inl e \<Longrightarrow> redis_set k v ex r = (Inl e, r)"
  by (simp add: redis_set_def)

lemma lookup_tick_persistent:
  "persistent r k \<Longrightarrow> lookup (tick dt r) k = lookup r k"
  by (auto simp: persistent_def lookup_def tick_def live_def split: option.splits)

lemma counter_tick_persistent:
  "persistent r k \<Longrightarrow> counter (tick dt r) k = counter r k"
  by (simp add: counter_def lookup_tick_persistent)

text \<open>\<open>INCR\<close> on a key that holds a counter.\<close>

lemma redis_incr_up:
  assumes "link r = []" "counter r k = Some n"
  shows "redis_incr k r =
           (Inr (n + 1),
            r\<lparr>db := (db r)(k \<mapsto> \<lparr>val = py_repr_int (n + 1),
                 expiry = (case lookup r k of None \<Rightarrow> None
                           | Some _ \<Rightarrow> (case db r k of None \<Rightarrow> None | Some e \<Rightarrow> expiry e))\<rparr>)\<rparr>)"
  using assms
  by (auto simp: redis_incr_def send_up counter_def split: option.splits)

lemma link_tick [simp]: "link (tick dt r) = link r"
  by (simp add: tick_def)

lemma db_tick [simp]: "db (tick dt r) = db r"
  by (simp add: tick_def)

lemma persistent_tick [simp]: "persistent (tick dt r) k = persistent r k"
  by (simp add: persistent_def)

lemma lookup_write_other:
  "k' \<noteq> k \<Longrightarrow> lookup (r\<lparr>db := (db r)(k \<mapsto> e)\<rparr>) k' = lookup r k'"
  by (simp add: lookup_def split: option.splits)

lemma counter_write_other:
  "k' \<noteq> k \<Longrightarrow> counter (r\<lparr>db := (db r)(k \<mapsto> e)\<rparr>) k' = counter r k'"
  by (simp add: counter_def lookup_write_other)

lemma persistent_write_other:
  "k' \<noteq> k \<Longrightarrow> persistent (r\<lparr>db := (db r)(k \<mapsto> e)\<rparr>) k' = persistent r k'"
  by (simp add: persistent_def)

subsection \<open>The state after \<open>INCR\<close>\<close>

lemma incr_link:
  "link r = [] \<Longrightarrow> counter r k = Some n \<Longrightarrow> link (snd (redis_incr k r)) = []"
  by (simp add: redis_incr_up)

lemma incr_now:
  "link r = [] \<Longrightarrow> counter r k = Some n \<Longrightarrow> now (snd (redis_incr k r)) = now r"
  by (simp add: redis_incr_up)

lemma incr_dom:
  "link r = [] \<Longrightarrow> counter r k = Some n \<Longrightarrow> dom (db (snd (redis_incr k r))) = insert k (dom (db r))"
  by (simp add: redis_incr_up)

lemma incr_counter:
  "link r = [] \<Longrightarrow> counter r k = Some n \<Longrightarrow> counter (snd (redis_incr k r)) k = Some (n + 1)"
  by (auto simp: redis_incr_up counter_def lookup_def live_def string2ll_repr split: option.splits if_splits)

lemma incr_persistent:
  "link r = [] \<Longrightarrow> counter r k = Some n \<Longrightarrow> persistent r k \<Longrightarrow> persistent (snd (redis_incr k r)) k"
  by (auto simp: redis_incr_up persistent_def split: option.splits)

subsection \<open>The state after \<open>store\<close>\<close>

lemma store_unfold:
  assumes "link r = []" "counter r ''Cache.store'' = Some n"
  shows "store data rnd r =
           (case encode data of
              Inl e \<Rightarrow> (Inl e, snd (redis_incr ''Cache.store'' r))
            | Inr b \<Rightarrow>
                (Inr (str_uuid (uuid4 rnd)),
                 (snd (redis_incr ''Cache.store'' r))
                   \<lparr>db := (db (snd (redis_incr ''Cache.store'' r)))
                      (str_uuid (uuid4 rnd) \<mapsto> \<lparr>val = b, expiry = None\<rparr>)\<rparr>))"
proof -
  obtain r1 where r1: "redis_incr ''Cache.store'' r = (Inr (n + 1), r1)"
    using assms by (simp add: redis_incr_up)
  have l1: "link r1 = []"
    using incr_link [OF assms] r1 by simp
  show ?thesis
  proof (cases "encode data")
    case (Inl e)
    then show ?thesis
      by (simp add: store_def count_calls_def r1 redis_set_DataError Let_def)
  next
    case (Inr b)
    then show ?thesis
      by (simp add: store_def count_calls_def r1 redis_set_up [OF l1 Inr] Let_def)
  qed
qed

lemma store_link:
  "link r = [] \<Longrightarrow> counter r ''Cache.store'' = Some n \<Longrightarrow> link (snd (store data rnd r)) = []"
  by (simp add: store_unfold incr_link split: sum.splits)

lemma store_counter:
  assumes "link r = []" "counter r ''Cache.store'' = Some n"
  shows "counter (snd (store data rnd r)) ''Cache.store'' = Some (n + 1)"
proof -
  have "counter (snd (redis_incr ''Cache.store'' r)) ''Cache.store'' = Some (n + 1)"
    by (rule incr_counter [OF assms])
  then show ?thesis
    using str_uuid_not_counter [of "uuid4 rnd"]
    by (simp add: store_unfold [OF assms] counter_write_other split: sum.splits)
qed

lemma store_persistent:
  assumes "link r = []" "counter r ''Cache.store'' = Some n" "persistent r ''Cache.store''"
  shows "persistent (snd (store data rnd r)) ''Cache.store''"
proof -
  have "persistent (snd (redis_incr ''Cache.store'' r)) ''Cache.store''"
    by (rule incr_persistent [OF assms])
  then show ?thesis
    using str_uuid_not_counter [of "uuid4 rnd"]
    by (simp add: store_unfold [OF assms(1,2)] persistent_write_other split: sum.splits)
qed

lemma get_up:
  "link r = [] \<Longrightarrow>
   get key fn r =
     (case lookup r key of
        None \<Rightarrow> (Inr PyNone, r)
      | Some v \<Rightarrow> (case fn of Some f \<Rightarrow> (f v, r) | None \<Rightarrow> (Inr (PyBytes v), r)))"
  by (simp add: get_def redis_get_up split: option.splits)

lemma lookup_tick_write:
  "lookup (tick dt (r\<lparr>db := (db r)(k \<mapsto> \<lparr>val = b, expiry = None\<rparr>)\<rparr>)) k = Some b"
  by (simp add: lookup_def live_def tick_def)

lemma store_returns:
  assumes "link r = []" "counter r ''Cache.store'' = Some c" "encode data = Inr b"
  shows "fst (store data rnd r) = Inr (str_uuid (uuid4 rnd))"
  using assms by (simp add: store_unfold)

lemma store_holds:
  assumes "link r = []" "counter r ''Cache.store'' = Some c" "encode data = Inr b"
  shows "lookup (tick dt (snd (store data rnd r))) (str_uuid (uuid4 rnd)) = Some b"
  using assms by (simp add: store_unfold lookup_tick_write)

subsection \<open>The stores and pages of the examples\<close>

lemma fresh_ready: "link fresh = []" "counter fresh k = Some 0" "lookup fresh k = None"
  by (simp_all add: fresh_def counter_def lookup_def)

lemma store_fresh:
  "store (PyInt 5) 0 fresh =
     (Inr (str_uuid (uuid4 0)),
      fresh\<lparr>db := [''Cache.store'' \<mapsto> \<lparr>val = py_repr_int 1, expiry = None\<rparr>,
                    str_uuid (uuid4 0) \<mapsto> \<lparr>val = py_repr_int 5, expiry = None\<rparr>]\<rparr>)"
proof -
  have a: "link fresh = []" "counter fresh ''Cache.store'' = Some 0"
    by (simp_all add: fresh_def counter_def lookup_def)
  have b: "lookup fresh ''Cache.store'' = None" by (simp add: fresh_def lookup_def)
  show ?thesis
    by (simp add: store_unfold [OF a] redis_incr_up [OF a] b) (simp add: fresh_def)
qed

subsection \<open>Sequences of calls\<close>

lemma store_calls_inv:
  "link r = [] \<Longrightarrow> counter r ''Cache.store'' = Some n \<Longrightarrow> persistent r ''Cache.store'' \<Longrightarrow>
   link (snd (store_calls cs r)) = []
   \<and> counter (snd (store_calls cs r)) ''Cache.store'' = Some (n + int (length cs))
   \<and> persistent (snd (store_calls cs r)) ''Cache.store''"
proof (induction cs arbitrary: r n)
  case Nil
  then show ?case by simp
next
  case (Cons c cs)
  obtain dt data rnd where c: "c = (dt, data, rnd)" by (cases c) auto
  let ?t = "tick dt r"
  have t: "link ?t = []" "counter ?t ''Cache.store'' = Some n" "persistent ?t ''Cache.store''"
    using Cons.prems by (simp_all add: counter_tick_persistent)
  let ?r1 = "snd (store data rnd ?t)"
  have "link (snd (store_calls cs ?r1)) = []
   \<and> counter (snd (store_calls cs ?r1)) ''Cache.store'' = Some (n + 1 + int (length cs))
   \<and> persistent (snd (store_calls cs ?r1)) ''Cache.store''"
    by (rule Cons.IH [OF store_link [OF t(1,2)] store_counter [OF t(1,2)] store_persistent [OF t]])
  then show ?case
    by (simp add: c split_def add.assoc)
qed

lemma fresh_persistent: "persistent fresh k"
  by (simp add: persistent_def fresh_def)

subsection \<open>A write that fails\<close>

text \<open>\<open>INCR\<close> on a connection that carries this command, whatever comes after.\<close>

lemma redis_incr_sent:
  assumes "link r = True # l" "counter r k = Some n"
  shows "redis_incr k r =
           (Inr (n + 1),
            r\<lparr>link := l,
              db := (db r)(k \<mapsto> \<lparr>val = py_repr_int (n + 1),
                 expiry = (case lookup r k of None \<Rightarrow> None
                           | Some _ \<Rightarrow> (case db r k of None \<Rightarrow> None | Some e \<Rightarrow> expiry e))\<rparr>)\<rparr>)"
proof -
  have "lookup (r\<lparr>link := l\<rparr>) k = lookup r k"
    by (simp add: lookup_def split: option.splits)
  then show ?thesis
    using assms
    by (auto simp: redis_incr_def send_def counter_def split: option.splits)
qed

lemma counter_after_incr_sent:
  assumes "link r = True # l" "counter r k = Some n"
  shows "counter (snd (redis_incr k r)) k = Some (n + 1)"
  by (auto simp: redis_incr_sent [OF assms] counter_def lookup_def live_def string2ll_repr
           split: option.splits if_splits)

lemma send_keeps: "db (snd (send r)) = db r" "now (snd (send r)) = now r"
  by (simp_all add: send_def split: list.splits)

lemma redis_set_raises:
  assumes "redis_set k v ex r = (Inl e, r2)"
  shows "db r2 = db r \<and> now r2 = now r"
proof (cases "encode v")
  case (Inl x)
  then show ?thesis using assms by (simp add: redis_set_def)
next
  case (Inr b)
  obtain up r' where s: "send r = (up, r')" by (cases "send r")
  have k: "db r' = db r" "now r' = now r"
    using send_keeps [of r] s by simp_all
  show ?thesis
  proof (cases up)
    case True
    then show ?thesis using assms Inr s by (simp add: redis_set_def)
  next
    case False
    then show ?thesis using assms Inr s k by (simp add: redis_set_def)
  qed
qed

lemma counter_same_data:
  "db r2 = db r1 \<Longrightarrow> now r2 = now r1 \<Longrightarrow> counter r2 k = counter r1 k"
  by (simp add: counter_def lookup_def split: option.splits)

subsection \<open>Keys that \<open>store\<close> never returned\<close>

lemma string2ll_Some: "string2ll v = Some n \<Longrightarrow> v = py_repr_int n"
  by (auto simp: string2ll_def split: option.splits if_splits)

text \<open>What the counter key holds once it has counted.\<close>

lemma counter_held:
  assumes "counter r k = Some n" "n \<noteq> 0"
  shows "lookup r k = Some (py_repr_int n)"
proof (cases "lookup r k")
  case None
  then show ?thesis using assms by (simp add: counter_def)
next
  case (Some v)
  then have "string2ll v = Some n" using assms(1) by (simp add: counter_def)
  then show ?thesis using Some string2ll_Some by simp
qed

lemma store_dom:
  assumes "link r = []" "counter r ''Cache.store'' = Some n"
  shows "dom (db (snd (store data rnd r)))
           \<subseteq> insert ''Cache.store'' (dom (db r)) \<union> {k. fst (store data rnd r) = Inr k}"
  using incr_dom [OF assms]
  by (auto simp: store_unfold [OF assms] split: sum.splits if_splits)

lemma store_calls_dom:
  "link r = [] \<Longrightarrow> counter r ''Cache.store'' = Some n \<Longrightarrow> persistent r ''Cache.store'' \<Longrightarrow>
   dom (db (snd (store_calls cs r)))
     \<subseteq> insert ''Cache.store'' (dom (db r)) \<union> {k. Inr k \<in> set (fst (store_calls cs r))}"
proof (induction cs arbitrary: r n)
  case Nil
  then show ?case by auto
next
  case (Cons c cs)
  obtain dt data rnd where c: "c = (dt, data, rnd)" by (cases c) auto
  let ?t = "tick dt r"
  have t: "link ?t = []" "counter ?t ''Cache.store'' = Some n" "persistent ?t ''Cache.store''"
    using Cons.prems by (simp_all add: counter_tick_persistent)
  let ?r1 = "snd (store data rnd ?t)"
  have step: "dom (db ?r1) \<subseteq> insert ''Cache.store'' (dom (db r)) \<union> {k. fst (store data rnd ?t) = Inr k}"
    using store_dom [OF t(1,2), of data rnd] by simp
  have rest: "dom (db (snd (store_calls cs ?r1)))
     \<subseteq> insert ''Cache.store'' (dom (db ?r1)) \<union> {k. Inr k \<in> set (fst (store_calls cs ?r1))}"
    by (rule Cons.IH [OF store_link [OF t(1,2)] store_counter [OF t(1,2)] store_persistent [OF t]])
  have "dom (db (snd (store_calls cs ?r1)))
     \<subseteq> insert ''Cache.store'' (dom (db r)) \<union> {k. fst (store data rnd ?t) = Inr k}
         \<union> {k. Inr k \<in> set (fst (store_calls cs ?r1))}"
    using step rest by blast
  then show ?case
    by (auto simp: c split_def)
qed

lemma init_up: "link r = [] \<Longrightarrow> Cache_init r = (Inr (), r\<lparr>db := Map.empty\<rparr>)"
  by (simp add: Cache_init_def redis_flushdb_up)

section \<open>Properties of the page cache\<close>

subsection \<open>The fetch\<close>

lemma fetch_result:
  "fst (get_page_undecorated u net w) =
     (case reply net of
        Failed msg \<Rightarrow> Inl (RequestException msg)
      | Responded resp \<Rightarrow>
          (case raise_for_status resp of Inl e \<Rightarrow> Inl e | Inr _ \<Rightarrow> Inr (resp_text resp)))"
  by (simp add: get_page_undecorated_def requests_get_def Let_def split: reply.splits sum.splits)

lemma fetch_state:
  "snd (get_page_undecorated u net w) = w\<lparr>kv := tick (took net) (kv w), fetched := fetched w @ [u]\<rparr>"
  by (simp add: get_page_undecorated_def requests_get_def Let_def split: reply.splits sum.splits)

text \<open>The wrapper on a miss, while the server is reachable.\<close>

lemma get_page_miss:
  assumes "link (kv w) = []"
      and "lookup (kv w) (''cached:'' @ u) = None \<or> lookup (kv w) (''cached:'' @ u) = Some []"
  shows "get_page u net w =
     (case get_page_undecorated u net w of
        (Inl e, w2) \<Rightarrow>
          (case e of
             RequestException msg \<Rightarrow> (Inr (''Error fetching page: '' @ msg), w2)
           | _ \<Rightarrow> (Inl e, w2))
      | (Inr html_content, w2) \<Rightarrow>
          (case redis_incr (''count:'' @ u) (kv w2) of
             (Inl e, r3) \<Rightarrow> (Inl e, w2\<lparr>kv := r3\<rparr>)
           | (Inr _, r3) \<Rightarrow>
               (case redis_set (''cached:'' @ u) (PyStr html_content) (Some 10) r3 of
                  (Inl e, r4) \<Rightarrow> (Inl e, w2\<lparr>kv := r4\<rparr>)
                | (Inr _, r4) \<Rightarrow> (Inr html_content, w2\<lparr>kv := r4\<rparr>))))"
  using assms
  by (auto simp: get_page_def url_access_count_def redis_get_up Let_def simp del: append.simps)

text \<open>A hit: a cached value that is not empty is decoded and returned, and nothing else happens.\<close>

lemma get_page_hit:
  assumes "link (kv w) = []"
      and "lookup (kv w) (''cached:'' @ u) = Some v" and "v \<noteq> []"
  shows "get_page u net w = (bytes_decode v, w)"
  using assms
  by (simp add: get_page_def url_access_count_def redis_get_up Let_def del: append.simps)

lemma fetch_pair:
  "get_page_undecorated u net w =
     (fst (get_page_undecorated u net w),
      w\<lparr>kv := tick (took net) (kv w), fetched := fetched w @ [u]\<rparr>)"
  using fetch_state [of u net w] by (simp add: prod_eq_iff)

lemma now_tick [simp]: "now (tick dt r) = now r + dt"
  by (simp add: tick_def)

text \<open>A miss with a fetch that succeeds: what the call returns and what it leaves.\<close>

lemma miss_success:
  assumes "link (kv w) = []"
      and "lookup (kv w) (''cached:'' @ u) = None \<or> lookup (kv w) (''cached:'' @ u) = Some []"
      and "fst (get_page_undecorated u net w) = Inr html"
      and "counter (tick (took net) (kv w)) (''count:'' @ u) = Some n"
  shows "get_page u net w =
           (Inr html,
            w\<lparr>kv := (snd (redis_incr (''count:'' @ u) (tick (took net) (kv w))))
                  \<lparr>db := (db (snd (redis_incr (''count:'' @ u) (tick (took net) (kv w)))))
                     (''cached:'' @ u \<mapsto> \<lparr>val = html, expiry = Some (now (kv w) + took net + 10)\<rparr>)\<rparr>,
              fetched := fetched w @ [u]\<rparr>)"
proof -
  let ?t = "tick (took net) (kv w)"
  have lt: "link ?t = []" using assms(1) by simp
  obtain r3 where i: "redis_incr (''count:'' @ u) ?t = (Inr (n + 1), r3)"
    by (simp add: redis_incr_up [OF lt assms(4)] del: append.simps)
  have l3: "link r3 = []" and n3: "now r3 = now (kv w) + took net"
    using incr_link [OF lt assms(4)] incr_now [OF lt assms(4)] by (simp_all add: i del: append.simps)
  have e: "encode (PyStr html) = Inr html" by simp
  have f: "get_page_undecorated u net w = (Inr html, w\<lparr>kv := ?t, fetched := fetched w @ [u]\<rparr>)"
    using fetch_pair [of u net w] assms(3) by simp
  show ?thesis
    by (simp add: get_page_miss [OF assms(1,2)] f i redis_set_up [OF l3 e] n3 del: append.simps)
qed

lemma miss_success_facts:
  assumes "link (kv w) = []"
      and "lookup (kv w) (''cached:'' @ u) = None \<or> lookup (kv w) (''cached:'' @ u) = Some []"
      and "fst (get_page_undecorated u net w) = Inr html"
      and "counter (tick (took net) (kv w)) (''count:'' @ u) = Some n"
  shows "fst (get_page u net w) = Inr html
         \<and> counter (kv (snd (get_page u net w))) (''count:'' @ u) = Some (n + 1)
         \<and> db (kv (snd (get_page u net w))) (''cached:'' @ u)
             = Some \<lparr>val = html, expiry = Some (now (kv w) + took net + 10)\<rparr>
         \<and> lookup (tick d (kv (snd (get_page u net w)))) (''cached:'' @ u)
             = (if d < 10 then Some html else None)
         \<and> fetched (snd (get_page u net w)) = fetched w @ [u]"
proof -
  let ?t = "tick (took net) (kv w)"
  let ?r3 = "snd (redis_incr (''count:'' @ u) ?t)"
  have lt: "link ?t = []" using assms(1) by simp
  have c3: "counter ?r3 (''count:'' @ u) = Some (n + 1)"
    by (rule incr_counter [OF lt assms(4)])
  have n3: "now ?r3 = now (kv w) + took net"
    using incr_now [OF lt assms(4)] by (simp del: append.simps)
  have apart: "''count:'' @ u \<noteq> ''cached:'' @ u" by simp
  have c4: "counter (?r3\<lparr>db := (db ?r3)(''cached:'' @ u \<mapsto>
               \<lparr>val = html, expiry = Some (now (kv w) + took net + 10)\<rparr>)\<rparr>) (''count:'' @ u) = Some (n + 1)"
    using c3 by (simp only: counter_write_other [OF apart])
  have look: "lookup (tick d (?r3\<lparr>db := (db ?r3)(''cached:'' @ u \<mapsto>
               \<lparr>val = html, expiry = Some (now (kv w) + took net + 10)\<rparr>)\<rparr>)) (''cached:'' @ u)
             = (if d < 10 then Some html else None)"
    by (simp add: lookup_def live_def n3 del: append.simps)
  show ?thesis
    using c4 look
    by (simp add: miss_success [OF assms] del: append.simps)
qed

lemma blank_ready:
  "link (kv blank) = []" "lookup (kv blank) k = None" "counter (tick d (kv blank)) k = Some 0"
  "now (kv blank) = 0" "fetched blank = []"
  by (simp_all add: blank_def fresh_def lookup_def counter_def tick_def)

lemma hello_fetch: "fst (get_page_undecorated u hello_page w) = Inr ''hello''"
  by (simp add: fetch_result hello_page_def raise_for_status_def)

lemma not_found_fetch:
  "fst (get_page_undecorated u not_found w)
     = Inl (RequestException ''404 Client Error: Not Found for url: http://example.test/a'')"
proof -
  have "str_nat 404 = ''404''" by code_simp
  then show ?thesis
    by (simp add: fetch_result not_found_def raise_for_status_def)
qed

lemma empty_fetch: "fst (get_page_undecorated u empty_page w) = Inr []"
  by (simp add: fetch_result empty_page_def raise_for_status_def)

section \<open>The claims\<close>

text \<open>
  C1, at a URL whose page is empty. The first \<open>get_page\<close> fetches the empty text and caches
  it, so the cache key is present, holding empty bytes, and the counter is 1. A second
  call within the expiry does not return the cached value: \<open>if cached_value:\<close> is false for
  empty bytes, so the call fetches again (two requests issued), returns what the second
  fetch brings, and the counter is 2.
\<close>

theorem get_page_empty_cached_value:
  "lookup (kv (snd (get_page ''http://example.test/a'' empty_page blank)))
      (''cached:'' @ ''http://example.test/a'') = Some []
   \<and> fetched (snd (get_page ''http://example.test/a'' empty_page blank)) = [''http://example.test/a'']
   \<and> counter (kv (snd (get_page ''http://example.test/a'' empty_page blank)))
        (''count:'' @ ''http://example.test/a'') = Some 1
   \<and> fst (get_page ''http://example.test/a'' hello_page
            (snd (get_page ''http://example.test/a'' empty_page blank))) = Inr ''hello''
   \<and> fetched (snd (get_page ''http://example.test/a'' hello_page
            (snd (get_page ''http://example.test/a'' empty_page blank))))
       = [''http://example.test/a'', ''http://example.test/a'']
   \<and> counter (kv (snd (get_page ''http://example.test/a'' hello_page
            (snd (get_page ''http://example.test/a'' empty_page blank)))))
        (''count:'' @ ''http://example.test/a'') = Some 2"
proof -
  let ?u = "''http://example.test/a''"
  let ?w1 = "snd (get_page ?u empty_page blank)"
  have m0: "lookup (kv blank) (''cached:'' @ ?u) = None \<or> lookup (kv blank) (''cached:'' @ ?u) = Some []"
    by (simp add: blank_ready)
  have one: "get_page ?u empty_page blank =
           (Inr [],
            blank\<lparr>kv := (snd (redis_incr (''count:'' @ ?u) (tick (took empty_page) (kv blank))))
                  \<lparr>db := (db (snd (redis_incr (''count:'' @ ?u) (tick (took empty_page) (kv blank)))))
                     (''cached:'' @ ?u \<mapsto> \<lparr>val = [], expiry = Some (now (kv blank) + took empty_page + 10)\<rparr>)\<rparr>,
              fetched := fetched blank @ [?u]\<rparr>)"
    by (rule miss_success [OF blank_ready(1) m0 empty_fetch blank_ready(3)])
  have f1: "fst (get_page ?u empty_page blank) = Inr []
         \<and> counter (kv ?w1) (''count:'' @ ?u) = Some (0 + 1)
         \<and> db (kv ?w1) (''cached:'' @ ?u)
             = Some \<lparr>val = [], expiry = Some (now (kv blank) + took empty_page + 10)\<rparr>
         \<and> lookup (tick 0 (kv ?w1)) (''cached:'' @ ?u) = (if (0::nat) < 10 then Some [] else None)
         \<and> fetched ?w1 = fetched blank @ [?u]"
    by (rule miss_success_facts [OF blank_ready(1) m0 empty_fetch blank_ready(3)])
  have t0: "tick 0 (kv ?w1) = kv ?w1"
    by (simp add: tick_def)
  have held: "lookup (kv ?w1) (''cached:'' @ ?u) = Some []"
    using f1 t0 by simp
  have l1: "link (kv ?w1) = []"
    using incr_link [OF _ blank_ready(3), of "took empty_page" "''count:'' @ ?u"] blank_ready(1)
    by (simp add: one del: append.simps)
  have lt: "link (tick (took empty_page) (kv blank)) = []"
    by (simp add: blank_ready)
  have pb: "persistent (tick (took empty_page) (kv blank)) (''count:'' @ ?u)"
    by (simp add: persistent_def blank_def fresh_def)
  have apart: "''count:'' @ ?u \<noteq> ''cached:'' @ ?u"
    by simp
  have "persistent (snd (redis_incr (''count:'' @ ?u) (tick (took empty_page) (kv blank)))) (''count:'' @ ?u)"
    by (rule incr_persistent [OF lt blank_ready(3) pb])
  then have p1: "persistent (kv ?w1) (''count:'' @ ?u)"
    by (simp add: one persistent_write_other [OF apart] del: append.simps)
  have c1: "counter (tick (took hello_page) (kv ?w1)) (''count:'' @ ?u) = Some 1"
    using f1 by (simp add: counter_tick_persistent [OF p1] del: append.simps)
  have m1: "lookup (kv ?w1) (''cached:'' @ ?u) = None \<or> lookup (kv ?w1) (''cached:'' @ ?u) = Some []"
    using held by simp
  have f2: "fst (get_page ?u hello_page ?w1) = Inr ''hello''
         \<and> counter (kv (snd (get_page ?u hello_page ?w1))) (''count:'' @ ?u) = Some (1 + 1)
         \<and> db (kv (snd (get_page ?u hello_page ?w1))) (''cached:'' @ ?u)
             = Some \<lparr>val = ''hello'', expiry = Some (now (kv ?w1) + took hello_page + 10)\<rparr>
         \<and> lookup (tick 0 (kv (snd (get_page ?u hello_page ?w1)))) (''cached:'' @ ?u)
             = (if (0::nat) < 10 then Some ''hello'' else None)
         \<and> fetched (snd (get_page ?u hello_page ?w1)) = fetched ?w1 @ [?u]"
    by (rule miss_success_facts [OF l1 m1 hello_fetch c1])
  show ?thesis
    using held f1 f2 by (simp add: blank_ready del: append.simps)
qed

text \<open>
  C2. When the cache key of a URL is absent and the fetch raises a \<open>RequestException\<close>
  (a transport failure, or the \<open>HTTPError\<close> of a 4xx or 5xx status), \<open>get_page\<close> does not
  raise: it returns the text \<open>"Error fetching page: "\<close> followed by the error's message.
  The store is as before but for the time the request took: no counter is incremented and
  no cache entry is written. (While the server is reachable.)
\<close>

theorem get_page_fetch_error:
  assumes "link (kv w) = []"
      and "lookup (kv w) (''cached:'' @ u) = None"
      and "fst (get_page_undecorated u net w) = Inl (RequestException msg)"
  shows "fst (get_page u net w) = Inr (''Error fetching page: '' @ msg)
         \<and> kv (snd (get_page u net w)) = tick (took net) (kv w)
         \<and> db (kv (snd (get_page u net w))) = db (kv w)
         \<and> fetched (snd (get_page u net w)) = fetched w @ [u]"
proof -
  have f: "get_page_undecorated u net w =
             (Inl (RequestException msg), w\<lparr>kv := tick (took net) (kv w), fetched := fetched w @ [u]\<rparr>)"
    using fetch_pair [of u net w] assms(3) by simp
  have m: "lookup (kv w) (''cached:'' @ u) = None \<or> lookup (kv w) (''cached:'' @ u) = Some []"
    using assms(2) by simp
  show ?thesis
    by (simp add: get_page_miss [OF assms(1) m] f del: append.simps)
qed

theorem get_page_fetch_error_witness:
  "link (kv blank) = []
   \<and> lookup (kv blank) (''cached:'' @ ''http://example.test/a'') = None
   \<and> fst (get_page_undecorated ''http://example.test/a'' not_found blank)
       = Inl (RequestException ''404 Client Error: Not Found for url: http://example.test/a'')
   \<and> fst (get_page ''http://example.test/a'' not_found blank)
       = Inr (''Error fetching page: '' @ ''404 Client Error: Not Found for url: http://example.test/a'')
   \<and> kv (snd (get_page ''http://example.test/a'' not_found blank)) = tick (took not_found) (kv blank)
   \<and> db (kv (snd (get_page ''http://example.test/a'' not_found blank))) = db (kv blank)
   \<and> fetched (snd (get_page ''http://example.test/a'' not_found blank)) = fetched blank @ [''http://example.test/a'']"
  using get_page_fetch_error [OF blank_ready(1) blank_ready(2) not_found_fetch,
      of "''http://example.test/a''"]
  by (simp add: blank_ready not_found_fetch del: append.simps)

text \<open>
  C3. For any sequence of calls to \<open>store\<close>, with any arguments (also ones the client
  refuses), any random draws and any time between the calls, the counter under the key
  \<open>Cache.store\<close> ends at its value before the sequence plus the number of calls. (While
  the server is reachable and the key \<open>Cache.store\<close> holds a counter that does not expire.)
\<close>

theorem store_calls_counted:
  assumes "link r = []"
      and "counter r ''Cache.store'' = Some n"
      and "persistent r ''Cache.store''"
  shows "counter (snd (store_calls cs r)) ''Cache.store'' = Some (n + int (length cs))"
  using store_calls_inv [OF assms] by simp

theorem store_calls_counted_witness:
  "link fresh = [] \<and> counter fresh ''Cache.store'' = Some 0 \<and> persistent fresh ''Cache.store''
   \<and> counter (snd (store_calls [(0, PyInt 5, 1), (4, PyNone, 2), (1, PyStr ''a'', 1)] fresh))
        ''Cache.store'' = Some 3"
  using store_calls_counted [OF fresh_ready(1) fresh_ready(2) fresh_persistent,
      of "[(0, PyInt 5, 1), (4, PyNone, 2), (1, PyStr ''a'', 1)]"]
  by (simp add: fresh_ready fresh_persistent)




text \<open>
  C5, as stated, at the key \<open>Cache.store\<close>: after \<open>__init__\<close> and one call \<open>store(5)\<close> on an
  empty store, \<open>store\<close> has not returned that key, and \<open>get\<close> on it returns the bytes
  \<open>b"1"\<close>, the call counter, not \<open>None\<close>.
\<close>

theorem counter_key_counterexample:
  "Inr ''Cache.store'' \<notin> set (fst (store_calls [(0, PyInt 5, 0)] (snd (Cache_init fresh))))
   \<and> fst (get ''Cache.store'' None (snd (store_calls [(0, PyInt 5, 0)] (snd (Cache_init fresh)))))
       = Inr (PyBytes ''1'')"
proof -
  have one: "py_repr_int 1 = ''1''" by code_simp
  have i: "snd (Cache_init fresh) = fresh"
    by (simp add: init_up fresh_ready) (simp add: fresh_def)
  have t: "tick 0 fresh = fresh"
    by (simp add: tick_def)
  have s: "store_calls [(0, PyInt 5, 0)] fresh = ([fst (store (PyInt 5) 0 fresh)], snd (store (PyInt 5) 0 fresh))"
    by (simp add: t split_def)
  have l: "link (snd (store (PyInt 5) 0 fresh)) = []"
    by (simp add: store_link fresh_ready)
  have "lookup (snd (store (PyInt 5) 0 fresh)) ''Cache.store'' = Some ''1''"
    using str_uuid_not_counter [of "uuid4 0"]
    by (auto simp: store_fresh lookup_def live_def one)
  then have g: "fst (get ''Cache.store'' None (snd (store (PyInt 5) 0 fresh))) = Inr (PyBytes ''1'')"
    by (simp add: get_up [OF l])
  have "fst (store (PyInt 5) 0 fresh) \<noteq> Inr ''Cache.store''"
    using str_uuid_not_counter [of "uuid4 0"] by (simp add: store_fresh)
  then show ?thesis
    using g unfolding i s by simp
qed

text \<open>
  C5, amended. On a store that \<open>__init__\<close> has flushed and that only calls to \<open>store\<close> have
  changed since, at any later time: \<open>get\<close> returns \<open>None\<close> for every key that \<open>store\<close> never
  returned and that is not the counter key \<open>Cache.store\<close>; and once \<open>store\<close> has been
  called, \<open>get\<close> on \<open>Cache.store\<close> returns the number of calls as decimal bytes. (While the
  server is reachable.)
\<close>

theorem get_unreturned_key:
  assumes "link r = []"
  shows "(Inr key \<notin> set (fst (store_calls cs (snd (Cache_init r)))) \<and> key \<noteq> ''Cache.store''
            \<longrightarrow> get key fn (tick dt (snd (store_calls cs (snd (Cache_init r)))))
                  = (Inr PyNone, tick dt (snd (store_calls cs (snd (Cache_init r))))))
         \<and> (cs \<noteq> []
            \<longrightarrow> get ''Cache.store'' None (tick dt (snd (store_calls cs (snd (Cache_init r)))))
                  = (Inr (PyBytes (py_repr_int (int (length cs)))),
                     tick dt (snd (store_calls cs (snd (Cache_init r))))))"
proof -
  let ?r0 = "snd (Cache_init r)"
  have r0: "link ?r0 = []" "db ?r0 = Map.empty"
    using assms(1) by (simp_all add: init_up)
  have c0: "counter ?r0 ''Cache.store'' = Some 0" "persistent ?r0 ''Cache.store''"
    using r0(2) by (simp_all add: counter_def lookup_def persistent_def)
  let ?r1 = "snd (store_calls cs ?r0)"
  have inv: "link ?r1 = []" "counter ?r1 ''Cache.store'' = Some (int (length cs))"
    "persistent ?r1 ''Cache.store''"
    using store_calls_inv [OF r0(1) c0, of cs] by simp_all
  have l: "link (tick dt ?r1) = []"
    using inv(1) by simp
  have first: "get key fn (tick dt ?r1) = (Inr PyNone, tick dt ?r1)"
    if "Inr key \<notin> set (fst (store_calls cs ?r0))" "key \<noteq> ''Cache.store''"
  proof -
    have "dom (db ?r1) \<subseteq> insert ''Cache.store'' (dom (db ?r0)) \<union> {k. Inr k \<in> set (fst (store_calls cs ?r0))}"
      by (rule store_calls_dom [OF r0(1) c0])
    then have "key \<notin> dom (db ?r1)"
      using that r0(2) by auto
    then have "db ?r1 key = None"
      by (simp add: domIff)
    then have "lookup (tick dt ?r1) key = None"
      by (simp add: lookup_def)
    then show ?thesis
      by (simp add: get_up [OF l])
  qed
  have second: "get ''Cache.store'' None (tick dt ?r1)
                  = (Inr (PyBytes (py_repr_int (int (length cs)))), tick dt ?r1)"
    if "cs \<noteq> []"
  proof -
    have "int (length cs) \<noteq> 0" using that by simp
    then have "lookup ?r1 ''Cache.store'' = Some (py_repr_int (int (length cs)))"
      by (rule counter_held [OF inv(2)])
    then have "lookup (tick dt ?r1) ''Cache.store'' = Some (py_repr_int (int (length cs)))"
      by (simp add: lookup_tick_persistent [OF inv(3)])
    then show ?thesis
      by (simp add: get_up [OF l])
  qed
  show ?thesis
    using first second by blast
qed

theorem get_unreturned_key_witness:
  "link fresh = []
   \<and> Inr ''spam'' \<notin> set (fst (store_calls [(0, PyInt 5, 0)] (snd (Cache_init fresh))))
   \<and> ''spam'' \<noteq> ''Cache.store''
   \<and> [(0::nat, PyInt 5, 0::128 word)] \<noteq> []
   \<and> get ''spam'' None (tick 2 (snd (store_calls [(0, PyInt 5, 0)] (snd (Cache_init fresh)))))
       = (Inr PyNone, tick 2 (snd (store_calls [(0, PyInt 5, 0)] (snd (Cache_init fresh)))))
   \<and> get ''Cache.store'' None (tick 2 (snd (store_calls [(0, PyInt 5, 0)] (snd (Cache_init fresh)))))
       = (Inr (PyBytes (py_repr_int 1)),
          tick 2 (snd (store_calls [(0, PyInt 5, 0)] (snd (Cache_init fresh)))))"
proof -
  have i: "snd (Cache_init fresh) = fresh"
    by (simp add: init_up fresh_ready) (simp add: fresh_def)
  have t: "tick 0 fresh = fresh"
    by (simp add: tick_def)
  have "length ''spam'' \<noteq> length (str_uuid (uuid4 0))"
    by (simp add: length_str_uuid)
  then have "''spam'' \<noteq> str_uuid (uuid4 0)"
    by metis
  then have b: "Inr ''spam'' \<notin> set (fst (store_calls [(0, PyInt 5, 0)] (snd (Cache_init fresh))))"
    unfolding i by (simp add: t split_def store_fresh)
  have c: "''spam'' \<noteq> ''Cache.store''"
    by simp
  show ?thesis
    using fresh_ready(1) b c
      get_unreturned_key [OF fresh_ready(1), of "''spam''" "[(0, PyInt 5, 0)]" None 2]
    by simp
qed

text \<open>
  C6. When the cache key of a URL is absent and the fetch succeeds, \<open>get_page\<close> returns the
  fetched text, the counter under \<open>"count:" + url\<close> is one higher, the text is held under
  \<open>"cached:" + url\<close> with an expiry 10 time units after the write (it is served for the
  next 10 units and gone after), and one request has been issued. (While the server is
  reachable and the key \<open>"count:" + url\<close> holds a counter.)
\<close>

theorem get_page_miss_fetched:
  assumes "link (kv w) = []"
      and "lookup (kv w) (''cached:'' @ u) = None"
      and "fst (get_page_undecorated u net w) = Inr html"
      and "counter (tick (took net) (kv w)) (''count:'' @ u) = Some n"
  shows "fst (get_page u net w) = Inr html
         \<and> counter (kv (snd (get_page u net w))) (''count:'' @ u) = Some (n + 1)
         \<and> db (kv (snd (get_page u net w))) (''cached:'' @ u)
             = Some \<lparr>val = html, expiry = Some (now (kv w) + took net + 10)\<rparr>
         \<and> lookup (tick d (kv (snd (get_page u net w)))) (''cached:'' @ u)
             = (if d < 10 then Some html else None)
         \<and> fetched (snd (get_page u net w)) = fetched w @ [u]"
  using assms(2) by (intro miss_success_facts [OF assms(1) _ assms(3,4)]) simp

theorem get_page_miss_fetched_witness:
  "link (kv blank) = []
   \<and> lookup (kv blank) (''cached:'' @ ''http://example.test/a'') = None
   \<and> fst (get_page_undecorated ''http://example.test/a'' hello_page blank) = Inr ''hello''
   \<and> counter (tick (took hello_page) (kv blank)) (''count:'' @ ''http://example.test/a'') = Some 0
   \<and> fst (get_page ''http://example.test/a'' hello_page blank) = Inr ''hello''
   \<and> counter (kv (snd (get_page ''http://example.test/a'' hello_page blank)))
        (''count:'' @ ''http://example.test/a'') = Some 1
   \<and> db (kv (snd (get_page ''http://example.test/a'' hello_page blank)))
        (''cached:'' @ ''http://example.test/a'') = Some \<lparr>val = ''hello'', expiry = Some 11\<rparr>
   \<and> lookup (tick 9 (kv (snd (get_page ''http://example.test/a'' hello_page blank))))
        (''cached:'' @ ''http://example.test/a'') = Some ''hello''
   \<and> fetched (snd (get_page ''http://example.test/a'' hello_page blank)) = [''http://example.test/a'']"
proof -
  have t: "took hello_page = 1" by (simp add: hello_page_def)
  show ?thesis
    using get_page_miss_fetched [OF blank_ready(1) blank_ready(2) hello_fetch blank_ready(3),
        of "''http://example.test/a''" 9]
    by (simp add: blank_ready hello_fetch t del: append.simps)
qed

text \<open>
  C7, as stated, at the integer \<open>10 ^ 4300\<close> (4301 digits) on an empty store: \<open>store\<close> of
  its decimal text returns a key, and \<open>get_int\<close> on that key raises \<open>ValueError\<close>, since
  \<open>int\<close> refuses more than 4300 digits.
\<close>

theorem get_int_digit_limit_counterexample:
  "fst (store (PyBytes (py_repr_int (10 ^ 4300))) 0 fresh) = Inr (str_uuid (uuid4 0))
   \<and> fst (get_int (str_uuid (uuid4 0)) (snd (store (PyBytes (py_repr_int (10 ^ 4300))) 0 fresh)))
       = Inl ValueError"
proof -
  have e: "(10::int) ^ 4300 = 10 ^ int_max_str_digits"
    by (simp only: int_max_str_digits_def)
  have enc: "encode (PyBytes (py_repr_int (10 ^ int_max_str_digits))) = Inr (py_repr_int (10 ^ int_max_str_digits))"
    by simp
  have l: "link (snd (store (PyBytes (py_repr_int (10 ^ int_max_str_digits))) 0 fresh)) = []"
    by (rule store_link [OF fresh_ready(1) fresh_ready(2)])
  have t: "tick 0 (snd (store (PyBytes (py_repr_int (10 ^ int_max_str_digits))) 0 fresh))
             = snd (store (PyBytes (py_repr_int (10 ^ int_max_str_digits))) 0 fresh)"
    by (simp add: tick_def)
  have big: "py_int (py_repr_int (10 ^ int_max_str_digits)) = Inl ValueError"
    by (simp add: py_int_repr)
  show ?thesis
    unfolding e
    using store_returns [OF fresh_ready(1) fresh_ready(2) enc, of 0]
      store_holds [OF fresh_ready(1) fresh_ready(2) enc, of 0 0]
    by (simp add: t get_int_def get_up [OF l] big)
qed

text \<open>
  C7, amended. For every integer \<open>n\<close>, \<open>store\<close> of the base-10 text of \<open>n\<close> (as bytes)
  returns a key, and \<open>get_int\<close> on that key, at any later time, returns \<open>n\<close> when \<open>n\<close> has at most 4300
  decimal digits (\<open>|n| < 10 ^ 4300\<close>, the interpreter's default limit) and raises
  \<open>ValueError\<close> when it has more. (While the server is reachable and the key
  \<open>Cache.store\<close> holds a counter.)
\<close>

theorem store_get_int_round_trip:
  assumes "link r = []" and "counter r ''Cache.store'' = Some c"
  shows "fst (store (PyBytes (py_repr_int n)) rnd r) = Inr (str_uuid (uuid4 rnd))
         \<and> get_int (str_uuid (uuid4 rnd)) (tick dt (snd (store (PyBytes (py_repr_int n)) rnd r)))
             = (if \<bar>n\<bar> < 10 ^ int_max_str_digits then Inr (PyInt n) else Inl ValueError,
                tick dt (snd (store (PyBytes (py_repr_int n)) rnd r)))"
proof -
  have e: "encode (PyBytes (py_repr_int n)) = Inr (py_repr_int n)" by simp
  have l: "link (tick dt (snd (store (PyBytes (py_repr_int n)) rnd r))) = []"
    using store_link [OF assms] by simp
  show ?thesis
    using store_returns [OF assms e, of rnd] store_holds [OF assms e, of dt rnd]
    by (simp add: get_int_def get_up [OF l] py_int_repr)
qed

theorem store_get_int_round_trip_witness:
  "link fresh = [] \<and> counter fresh ''Cache.store'' = Some 0
   \<and> \<bar>- 42\<bar> < (10::int) ^ int_max_str_digits
   \<and> fst (store (PyBytes (py_repr_int (- 42))) 7 fresh) = Inr (str_uuid (uuid4 7))
   \<and> get_int (str_uuid (uuid4 7)) (tick 3 (snd (store (PyBytes (py_repr_int (- 42))) 7 fresh)))
       = (Inr (PyInt (- 42)), tick 3 (snd (store (PyBytes (py_repr_int (- 42))) 7 fresh)))"
proof -
  have "(10::int) ^ 2 \<le> 10 ^ int_max_str_digits"
    by (rule power_increasing) (simp_all add: int_max_str_digits_def)
  then have b: "\<bar>- 42\<bar> < (10::int) ^ int_max_str_digits"
    by simp
  show ?thesis
    using b store_get_int_round_trip [OF fresh_ready(1) fresh_ready(2), of "- 42" 7 3]
    by (simp add: fresh_ready)
qed

text \<open>
  C8. A key that \<open>store\<close> returned before \<open>Cache.__init__\<close> ran is absent afterwards:
  once \<open>__init__\<close> has returned, \<open>get\<close> on that key gives \<open>None\<close>, at any later time and
  for any decoder.
\<close>

theorem init_clears_stored_keys:
  assumes "store data rnd r = (Inr key, r1)"
      and "Cache_init r1 = (Inr u, r2)"
      and "link r2 = []"
  shows "get key fn (tick dt r2) = (Inr PyNone, tick dt r2)"
proof -
  have "db r2 = Map.empty"
    using assms(2) by (auto simp: Cache_init_def redis_flushdb_def split: prod.splits bool.splits)
  then have "lookup (tick dt r2) key = None"
    by (simp add: lookup_def)
  then show ?thesis
    using assms(3) by (simp add: get_up)
qed

theorem init_clears_stored_keys_witness:
  "store (PyInt 5) 0 fresh = (Inr (str_uuid (uuid4 0)), snd (store (PyInt 5) 0 fresh))
   \<and> Cache_init (snd (store (PyInt 5) 0 fresh)) = (Inr (), fresh)
   \<and> link fresh = []
   \<and> get (str_uuid (uuid4 0)) None (tick 1 fresh) = (Inr PyNone, tick 1 fresh)"
proof -
  have a: "store (PyInt 5) 0 fresh = (Inr (str_uuid (uuid4 0)), snd (store (PyInt 5) 0 fresh))"
    by (simp add: store_fresh)
  have "link (snd (store (PyInt 5) 0 fresh)) = []"
    by (simp add: store_link fresh_ready)
  then have b: "Cache_init (snd (store (PyInt 5) 0 fresh)) = (Inr (), fresh)"
    by (simp add: Cache_init_def redis_flushdb_up store_fresh) (simp add: fresh_def)
  have c: "link fresh = []"
    by (simp add: fresh_ready)
  show ?thesis
    using a b c init_clears_stored_keys [OF a b c, of None 1] by simp
qed

text \<open>
  C9. For every key absent from the store and every decoder \<open>fn\<close> (also one that would
  raise on any input), \<open>get\<close> returns \<open>None\<close> and leaves the store as it was: the result does
  not depend on \<open>fn\<close>, so \<open>fn\<close> is never run. \<open>get_str\<close> and \<open>get_int\<close> on a missing key
  return \<open>None\<close> too, rather than failing in their decoders. (While the server is reachable.)
\<close>

theorem get_missing_key:
  assumes "link r = []" and "lookup r key = None"
  shows "get key fn r = (Inr PyNone, r) \<and> get_str key r = (Inr PyNone, r)
           \<and> get_int key r = (Inr PyNone, r)"
  using assms by (simp add: get_up get_str_def get_int_def)

theorem get_missing_key_witness:
  "link fresh = [] \<and> lookup fresh ''k'' = None
     \<and> get ''k'' (Some (\<lambda>d. Inl ValueError)) fresh = (Inr PyNone, fresh)
     \<and> get_str ''k'' fresh = (Inr PyNone, fresh) \<and> get_int ''k'' fresh = (Inr PyNone, fresh)"
  using get_missing_key [OF fresh_ready(1) fresh_ready(3), of "''k''" "Some (\<lambda>d. Inl ValueError)"]
  by (simp add: fresh_ready)

text \<open>
  C10. \<open>store\<close> increments the call counter before it writes the value: when the
  increment reaches the server and the write then fails (the connection drops, or the
  client refuses the value), the exception of the write is what \<open>store\<close> raises, the
  counter is already one higher, and the new key holds nothing new (the database is at
  that key as it was before the call). The counter then exceeds the number of stores that
  completed.
\<close>

theorem store_counts_before_writing:
  assumes "link r = True # l"
      and "counter r ''Cache.store'' = Some n"
      and "redis_set (str_uuid (uuid4 rnd)) data None (snd (redis_incr ''Cache.store'' r)) = (Inl e, r2)"
  shows "store data rnd r = (Inl e, r2)
         \<and> counter r2 ''Cache.store'' = Some (n + 1)
         \<and> db r2 (str_uuid (uuid4 rnd)) = db r (str_uuid (uuid4 rnd))"
proof -
  obtain r1 where i: "redis_incr ''Cache.store'' r = (Inr (n + 1), r1)"
    by (simp add: redis_incr_sent [OF assms(1,2)])
  have w: "redis_set (str_uuid (uuid4 rnd)) data None r1 = (Inl e, r2)"
    using assms(3) by (simp add: i)
  have s: "store data rnd r = (Inl e, r2)"
    by (simp add: store_def count_calls_def i w Let_def)
  have same: "db r2 = db r1" "now r2 = now r1"
    using redis_set_raises [OF w] by simp_all
  have "counter r1 ''Cache.store'' = Some (n + 1)"
    using counter_after_incr_sent [OF assms(1,2)] by (simp add: i)
  then have c: "counter r2 ''Cache.store'' = Some (n + 1)"
    using counter_same_data [OF same] by simp
  have "db r1 (str_uuid (uuid4 rnd)) = db r (str_uuid (uuid4 rnd))"
    using i str_uuid_not_counter [of "uuid4 rnd"] by (auto simp: redis_incr_sent [OF assms(1,2)])
  then show ?thesis
    using s c same by simp
qed

theorem store_counts_before_writing_witness:
  "link outage = True # [False]
   \<and> counter outage ''Cache.store'' = Some 0
   \<and> redis_set (str_uuid (uuid4 3)) (PyInt 5) None (snd (redis_incr ''Cache.store'' outage))
       = (Inl ConnectionError, snd (store (PyInt 5) 3 outage))
   \<and> store (PyInt 5) 3 outage = (Inl ConnectionError, snd (store (PyInt 5) 3 outage))
   \<and> counter (snd (store (PyInt 5) 3 outage)) ''Cache.store'' = Some 1
   \<and> db (snd (store (PyInt 5) 3 outage)) (str_uuid (uuid4 3)) = db outage (str_uuid (uuid4 3))"
proof -
  have a: "link outage = True # [False]"
    by (simp add: outage_def)
  have b: "counter outage ''Cache.store'' = Some 0"
    by (simp add: outage_def counter_def lookup_def)
  obtain r1 where i: "redis_incr ''Cache.store'' outage = (Inr 1, r1)" and l: "link r1 = [False]"
    by (simp add: redis_incr_sent [OF a b])
  obtain r2 where w: "redis_set (str_uuid (uuid4 3)) (PyInt 5) None r1 = (Inl ConnectionError, r2)"
    using l by (simp add: redis_set_def send_def)
  have s: "store (PyInt 5) 3 outage = (Inl ConnectionError, r2)"
    by (simp add: store_def count_calls_def i w Let_def)
  have c: "redis_set (str_uuid (uuid4 3)) (PyInt 5) None (snd (redis_incr ''Cache.store'' outage))
       = (Inl ConnectionError, snd (store (PyInt 5) 3 outage))"
    by (simp add: i w s)
  show ?thesis
    using a b c store_counts_before_writing [OF a b c] by simp
qed

end
